theory Spec2Isabelle
  imports Main "HOL-Library.Sublist" "HOL-Library.AList"
begin

section \<open>Strings\<close>

text \<open>
  JavaScript strings are modelled as \<open>string\<close> (lists of characters); \<open>length\<close> stands for
  \<open>String.prototype.length\<close>. Lower-casing touches the letters \<open>A\<close> to \<open>Z\<close> only, which is what
  \<open>toLowerCase\<close> and the \<open>i\<close> flag of a regular expression do on the ASCII letters that every
  pattern of this program is made of.
\<close>

definition toLowerChar :: "char \<Rightarrow> char" where
  "toLowerChar c =
     (case map_of (zip ''ABCDEFGHIJKLMNOPQRSTUVWXYZ'' ''abcdefghijklmnopqrstuvwxyz'') c of
        None \<Rightarrow> c
      | Some l \<Rightarrow> l)"

definition toLowerCase :: "string \<Rightarrow> string" where
  "toLowerCase s = map toLowerChar s"

text \<open>\<open>s.includes(p)\<close>: \<open>p\<close> occurs in \<open>s\<close> as a contiguous run.\<close>

definition str_includes :: "string \<Rightarrow> string \<Rightarrow> bool" where
  "str_includes s p = sublist p s"

text \<open>\<open>/p/i.test(s)\<close> for a pattern \<open>p\<close> of literal characters.\<close>

definition regex_test_i :: "string \<Rightarrow> string \<Rightarrow> bool" where
  "regex_test_i p s = sublist (toLowerCase p) (toLowerCase s)"

text \<open>\<open>s.split(c)\<close> for a one-character separator: always at least one piece.\<close>

fun split_on :: "char \<Rightarrow> string \<Rightarrow> string list" where
  "split_on c [] = [[]]"
| "split_on c (x # xs) =
     (if x = c then [] # split_on c xs
      else (case split_on c xs of [] \<Rightarrow> [[x]] | p # ps \<Rightarrow> (x # p) # ps))"

text \<open>\<open>xs.join(sep)\<close>.\<close>

fun join :: "string \<Rightarrow> string list \<Rightarrow> string" where
  "join sep [] = []"
| "join sep [x] = x"
| "join sep (x # y # ys) = x @ sep @ join sep (y # ys)"

text \<open>\<open>'*'.repeat(n)\<close>; every call of the program passes a count that is not negative.\<close>

definition stars :: "nat \<Rightarrow> string" where
  "stars n = replicate n CHR ''*''"

text \<open>Decimal digits of a number, as a template literal prints it.\<close>

fun show_nat :: "nat \<Rightarrow> string" where
  "show_nat n =
     (if n < 10 then [''0123456789'' ! n]
      else show_nat (n div 10) @ [''0123456789'' ! (n mod 10)])"

declare show_nat.simps [simp del]

section \<open>TypeNormalizer: \<open>BaseConnector.normalizeFieldType\<close> (connectors/base.ts)\<close>

definition normalizeFieldType :: "string \<Rightarrow> string" where
  "normalizeFieldType dbType =
     (let ty = toLowerCase dbType in
      if str_includes ty ''int'' \<or> str_includes ty ''serial'' then ''integer''
      else if str_includes ty ''varchar'' \<or> str_includes ty ''text'' \<or> str_includes ty ''char''
        then ''string''
      else if str_includes ty ''decimal'' \<or> str_includes ty ''numeric''
              \<or> str_includes ty ''float'' \<or> str_includes ty ''double''
        then ''number''
      else if str_includes ty ''date'' \<or> str_includes ty ''time'' \<or> str_includes ty ''timestamp''
        then ''date''
      else if str_includes ty ''bool'' then ''boolean''
      else if str_includes ty ''json'' then ''json''
      else if str_includes ty ''blob'' \<or> str_includes ty ''bytea'' then ''binary''
      else ''string'')"

text \<open>
  The specification's reading of the normalizer: a seven-value vocabulary and an ordered rule
  table, searched for the first rule one of whose fragments occurs in the type name, letter
  case ignored.
\<close>

definition semanticTypes :: "string list" where
  "semanticTypes =
     [''integer'', ''string'', ''number'', ''date'', ''boolean'', ''json'', ''binary'']"

definition typeRules :: "(string list \<times> string) list" where
  "typeRules =
     [([''int'', ''serial''], ''integer''),
      ([''varchar'', ''text'', ''char''], ''string''),
      ([''decimal'', ''numeric'', ''float'', ''double''], ''number''),
      ([''date'', ''time'', ''timestamp''], ''date''),
      ([''bool''], ''boolean''),
      ([''json''], ''json''),
      ([''blob'', ''bytea''], ''binary'')]"

definition contains_ci :: "string \<Rightarrow> string \<Rightarrow> bool" where
  "contains_ci s p = (\<exists>pre mid suf. s = pre @ mid @ suf \<and> toLowerCase mid = toLowerCase p)"

definition rule_matches :: "string \<Rightarrow> string list \<times> string \<Rightarrow> bool" where
  "rule_matches s rule = (\<exists>p \<in> set (fst rule). contains_ci s p)"

fun first_match :: "(string list \<times> string) list \<Rightarrow> string \<Rightarrow> string" where
  "first_match [] s = ''string''"
| "first_match (rule # rules) s = (if rule_matches s rule then snd rule else first_match rules s)"

section \<open>FieldClassifier: \<open>HeuristicAnonymizer\<close> (anonymizers)\<close>

text \<open>
  Errors are values. \<open>TypeError\<close> is what JavaScript throws when a string method is called on a
  value that has none; \<open>Error\<close> carries the message of an \<open>Error\<close> object thrown by the program
  or by a connector.
\<close>

datatype js_error = TypeError | Error string

text \<open>
  The values of a row. Numbers are kept to the integers. \<open>JBuffer\<close> is a byte sequence and
  \<open>JArray\<close> an array: both have a \<open>length\<close> and no string methods. \<open>JObject\<close> stands for any
  other object, a structured or temporal value or a member of \<open>Object.prototype\<close>; it has no
  string methods and the model gives it no \<open>length\<close>.
\<close>

datatype jsval =
    JNull
  | JUndefined
  | JBoolean bool
  | JNumber int
  | JString string
  | JBuffer "nat list"
  | JArray "jsval list"
  | JObject

definition sensitivePatterns :: "string list" where
  "sensitivePatterns =
     [''email'', ''mail'', ''e_mail'',
      ''name'', ''first_name'', ''last_name'', ''full_name'', ''username'', ''user_name'',
      ''phone'', ''telephone'', ''mobile'', ''cell'',
      ''address'', ''street'', ''city'', ''zip'', ''postal'',
      ''ssn'', ''social_security'', ''passport'', ''id_number'', ''credit_card'', ''card_number'',
      ''password'', ''secret'', ''token'', ''key'']"

definition shouldAnonymize :: "string \<Rightarrow> string \<Rightarrow> bool" where
  "shouldAnonymize fieldName fieldType =
     (let isSensitiveName = list_ex (\<lambda>pattern. regex_test_i pattern fieldName) sensitivePatterns;
          isStringField = (fieldType = ''string'')
      in isSensitiveName \<and> isStringField)"

text \<open>
  \<open>const [localPart, domain] = value.split('@')\<close> binds the first two pieces; \<open>domain\<close> is
  \<open>undefined\<close> when there is one piece only, and \<open>!domain\<close> holds for \<open>undefined\<close> and for
  the empty string.
\<close>

definition anonymizeEmail :: "string \<Rightarrow> string" where
  "anonymizeEmail v =
     (case split_on CHR ''@'' v of
        localPart # domain # _ \<Rightarrow>
          if domain = [] then ''anonymous@example.com''
          else (let maskedLocal =
                      (if length localPart > 2
                       then take 2 localPart @ stars (length localPart - 2)
                       else ''**'')
                in maskedLocal @ ''@'' @ domain)
      | _ \<Rightarrow> ''anonymous@example.com'')"

definition anonymizeName :: "string \<Rightarrow> string" where
  "anonymizeName v =
     (let words = split_on CHR '' '' v
      in join '' ''
           (map (\<lambda>word. if length word \<le> 2 then stars (length word)
                         else take 1 word @ stars (length word - 1)) words))"

definition isDigit :: "char \<Rightarrow> bool" where
  "isDigit c = (c \<in> set ''0123456789'')"

definition anonymizePhone :: "string \<Rightarrow> string" where
  "anonymizePhone v =
     (let digits = filter isDigit v
      in if length digits < 4 then ''***-***-****''
         else (let lastFour = drop (length digits - 4) digits in ''***-***-'' @ lastFour))"

definition anonymizeAddress :: "string \<Rightarrow> string" where
  "anonymizeAddress v =
     (let words = split_on CHR '' '' v
      in if length words \<le> 2 then ''*** ***''
         else join '' ''
                (map (\<lambda>(index, word). if index < 2 then stars (length word) else word)
                     (enumerate 0 words)))"

definition anonymizePassword :: "jsval \<Rightarrow> string" where
  "anonymizePassword v = stars 8"

definition anonymizeGeneric :: "string \<Rightarrow> string" where
  "anonymizeGeneric v =
     (if length v \<le> 3 then stars (length v)
      else (let start = take 1 v;
                end = drop (length v - 1) v;
                middle = stars (length v - 2)
            in start @ middle @ end))"

text \<open>
  The transforms are typed for strings but \<open>anonymizeField\<close> takes any value. \<open>split\<close> and
  \<open>replace\<close> exist on strings only. \<open>anonymizeGeneric\<close> first reads \<open>value.length\<close>, which a byte
  sequence and an array have too, and calls \<open>substring\<close> only on values longer than 3.
\<close>

fun on_string :: "(string \<Rightarrow> string) \<Rightarrow> jsval \<Rightarrow> js_error + jsval" where
  "on_string f (JString s) = Inr (JString (f s))"
| "on_string f _ = Inl TypeError"

fun anonymizeGeneric_any :: "jsval \<Rightarrow> js_error + jsval" where
  "anonymizeGeneric_any (JString s) = Inr (JString (anonymizeGeneric s))"
| "anonymizeGeneric_any (JBuffer bs) =
     (if length bs \<le> 3 then Inr (JString (stars (length bs))) else Inl TypeError)"
| "anonymizeGeneric_any (JArray vs) =
     (if length vs \<le> 3 then Inr (JString (stars (length vs))) else Inl TypeError)"
| "anonymizeGeneric_any _ = Inl TypeError"

definition anonymizeField :: "string \<Rightarrow> jsval \<Rightarrow> string \<Rightarrow> js_error + jsval" where
  "anonymizeField fieldName v fieldType =
     (if v = JNull \<or> v = JUndefined then Inr v
      else if \<not> shouldAnonymize fieldName fieldType then Inr v
      else if regex_test_i ''email'' fieldName then on_string anonymizeEmail v
      else if regex_test_i ''name'' fieldName then on_string anonymizeName v
      else if regex_test_i ''phone'' fieldName then on_string anonymizePhone v
      else if regex_test_i ''address'' fieldName then on_string anonymizeAddress v
      else if regex_test_i ''password'' fieldName \<or> regex_test_i ''secret'' fieldName
        then Inr (JString (anonymizePassword v))
      else anonymizeGeneric_any v)"

text \<open>
  The email transform as the specification words it: split at the first \<open>@\<close>, mask the local
  part, keep everything after that \<open>@\<close>.
\<close>

definition email_placeholder :: string where
  "email_placeholder = ''anonymous@example.com''"

definition mask_local :: "string \<Rightarrow> string" where
  "mask_local localPart =
     (if length localPart \<le> 2 then ''**'' else take 2 localPart @ stars (length localPart - 2))"

definition before_at :: "string \<Rightarrow> string" where
  "before_at v = takeWhile (\<lambda>c. c \<noteq> CHR ''@'') v"

definition after_at :: "string \<Rightarrow> string" where
  "after_at v = drop 1 (dropWhile (\<lambda>c. c \<noteq> CHR ''@'') v)"

definition anonymizeEmail_spec :: "string \<Rightarrow> string" where
  "anonymizeEmail_spec v =
     (if CHR ''@'' \<notin> set v then email_placeholder
      else mask_local (before_at v) @ ''@'' @ after_at v)"

section \<open>Rows and table descriptors (types/index.ts)\<close>

text \<open>
  A row is a JavaScript object whose prototype is \<open>Object.prototype\<close>: its own keys in the order
  \<open>Object.keys\<close> lists them, each with one value.
\<close>

type_synonym row = "(string \<times> jsval) list"

definition object_keys :: "row \<Rightarrow> string list" where
  "object_keys r = map fst r"

text \<open>
  \<open>row[k]\<close>: the value of an own key; for a key the object lacks, the member of
  \<open>Object.prototype\<close> of that name (a function or an object), and \<open>undefined\<close> when there is
  none.
\<close>

definition object_prototype_keys :: "string list" where
  "object_prototype_keys =
     [''constructor'', ''__defineGetter__'', ''__defineSetter__'', ''hasOwnProperty'',
      ''__lookupGetter__'', ''__lookupSetter__'', ''isPrototypeOf'', ''propertyIsEnumerable'',
      ''toString'', ''valueOf'', ''__proto__'', ''toLocaleString'']"

definition row_get :: "row \<Rightarrow> string \<Rightarrow> jsval" where
  "row_get r k =
     (case map_of r k of
        Some v \<Rightarrow> v
      | None \<Rightarrow> if k \<in> set object_prototype_keys then JObject else JUndefined)"

text \<open>
  An array index is a key that is the canonical decimal numeral of a number below \<open>2^32 - 1\<close>.
  \<open>Object.keys\<close> lists the array indices first, in ascending order, then the other keys in
  the order of their creation.
\<close>

definition digit_of :: "char \<Rightarrow> int option" where
  "digit_of c = map_of (zip ''0123456789'' [0, 1, 2, 3, 4, 5, 6, 7, 8, 9]) c"

fun digits_value :: "string \<Rightarrow> int \<Rightarrow> int option" where
  "digits_value [] acc = Some acc"
| "digits_value (c # cs) acc =
     (case digit_of c of None \<Rightarrow> None | Some d \<Rightarrow> digits_value cs (10 * acc + d))"

definition array_index :: "string \<Rightarrow> int option" where
  "array_index k =
     (case k of
        [] \<Rightarrow> None
      | c # cs \<Rightarrow>
          if c = CHR ''0'' \<and> cs \<noteq> [] then None
          else (case digits_value k 0 of
                  None \<Rightarrow> None
                | Some n \<Rightarrow> if n < 4294967295 then Some n else None))"

fun insert_index :: "int \<Rightarrow> string \<times> jsval \<Rightarrow> row \<Rightarrow> row" where
  "insert_index n kv [] = [kv]"
| "insert_index n kv (e # r) =
     (case array_index (fst e) of
        Some m \<Rightarrow> if m < n then e # insert_index n kv r else kv # e # r
      | None \<Rightarrow> kv # e # r)"

text \<open>
  \<open>row[k] = v\<close>: assigning to \<open>__proto__\<close> runs the setter of \<open>Object.prototype\<close> and creates no
  key; assigning to a key the object has replaces its value in place; a new key takes its place
  in the order of \<open>Object.keys\<close>.
\<close>

definition row_set :: "row \<Rightarrow> string \<Rightarrow> jsval \<Rightarrow> row" where
  "row_set r k v =
     (if k = ''__proto__'' then r
      else if k \<in> set (object_keys r) then AList.update k v r
      else (case array_index k of
              None \<Rightarrow> r @ [(k, v)]
            | Some n \<Rightarrow> insert_index n (k, v) r))"

text \<open>\<open>FieldInfo\<close>: \<open>name\<close>, \<open>type\<close>, \<open>nullable\<close>, \<open>defaultValue\<close> (absent is \<open>JUndefined\<close>).\<close>

record FieldInfo =
  field_name :: string
  field_type :: string
  nullable :: bool
  defaultValue :: jsval

text \<open>\<open>TableInfo\<close>: \<open>name\<close>, \<open>fields\<close>, and the optional \<open>rowCount\<close>.\<close>

record TableInfo =
  table_name :: string
  table_fields :: "FieldInfo list"
  rowCount :: "nat option"

text \<open>\<open>TableConfig\<close>: \<open>name\<close> and the optional \<open>anonymizeFields\<close>, \<open>excludeFields\<close>, \<open>batchSize\<close>.\<close>

record TableConfig =
  tc_name :: string
  tc_anonymizeFields :: "string list option"
  tc_excludeFields :: "string list option"
  tc_batchSize :: "int option"

text \<open>
  The value used when one is absent: a default parameter, \<open>rowCount || 0\<close>,
  \<open>anonymizeFields || []\<close>.
\<close>

definition or_default :: "'a \<Rightarrow> 'a option \<Rightarrow> 'a" where
  "or_default dflt x = (case x of None \<Rightarrow> dflt | Some v \<Rightarrow> v)"

text \<open>\<open>a || b\<close> on optional numbers: \<open>undefined\<close> and \<open>0\<close> are falsy.\<close>

definition js_or :: "int option \<Rightarrow> int option \<Rightarrow> int option" where
  "js_or a b = (if a = None \<or> a = Some 0 then b else a)"

section \<open>MigrationPipeline: \<open>DataProcessor\<close> (streams/processor.ts)\<close>

text \<open>
  \<open>processRow\<close>: the loop over the retained fields, with the row under construction as its
  accumulator. A \<open>TypeError\<close> of a transform leaves the loop, as the exception does.
\<close>

fun processRow_loop :: "FieldInfo list \<Rightarrow> row \<Rightarrow> string list \<Rightarrow> row \<Rightarrow> js_error + row" where
  "processRow_loop [] r anonymizeFields processedRow = Inr processedRow"
| "processRow_loop (field # rest) r anonymizeFields processedRow =
     (let v = row_get r (field_name field);
          should = (field_name field \<in> set anonymizeFields
                    \<or> shouldAnonymize (field_name field) (field_type field))
      in if should then
           (case anonymizeField (field_name field) v (field_type field) of
              Inl e \<Rightarrow> Inl e
            | Inr v' \<Rightarrow>
                processRow_loop rest r anonymizeFields (row_set processedRow (field_name field) v'))
         else processRow_loop rest r anonymizeFields (row_set processedRow (field_name field) v))"

definition processRow :: "row \<Rightarrow> FieldInfo list \<Rightarrow> string list \<Rightarrow> js_error + row" where
  "processRow r fs anonymizeFields = processRow_loop fs r anonymizeFields []"

text \<open>\<open>batch.map(row => this.processRow(row, filteredFields, anonymizeFields))\<close>.\<close>

fun processBatch :: "row list \<Rightarrow> FieldInfo list \<Rightarrow> string list \<Rightarrow> js_error + row list" where
  "processBatch [] fs anonymizeFields = Inr []"
| "processBatch (r # rs) fs anonymizeFields =
     (case processRow r fs anonymizeFields of
        Inl e \<Rightarrow> Inl e
      | Inr r' \<Rightarrow>
          (case processBatch rs fs anonymizeFields of
             Inl e \<Rightarrow> Inl e
           | Inr rs' \<Rightarrow> Inr (r' # rs')))"

text \<open>
  What the asynchronous iterator of \<open>streamTableData\<close> delivers: batches, then its end or an
  exception.
\<close>

datatype batch_stream =
    StreamEnd
  | StreamBatch "row list" batch_stream
  | StreamError js_error

definition stream_of :: "row list list \<Rightarrow> batch_stream" where
  "stream_of batches = foldr StreamBatch batches StreamEnd"

text \<open>
  The calls the processor makes, in order: on the source connector, on the destination
  connector, and of the progress callback (table, processed, total).
\<close>

datatype event =
    GetTableInfo string
  | CreateTable TableInfo
  | StreamTableData string int
  | InsertData string "row list"
  | Progress string nat nat

text \<open>
  The two connectors and the callback, as the processor sees them. The source answers reads;
  the destination has a state of its own that each call may change, whether it fails or not;
  \<open>progressCallback\<close> tells whether a callback was given.
\<close>

record 'd connectors =
  src_getTables :: "js_error + string list"
  src_getTableInfo :: "string \<Rightarrow> js_error + TableInfo"
  src_streamTableData :: "string \<Rightarrow> int \<Rightarrow> batch_stream"
  dst_createTable :: "TableInfo \<Rightarrow> 'd \<Rightarrow> js_error option \<times> 'd"
  dst_insertData :: "string \<Rightarrow> row list \<Rightarrow> 'd \<Rightarrow> js_error option \<times> 'd"
  progressCallback :: bool

text \<open>
  A run ends with the exception thrown, if any, the state of the destination and the calls
  made.
\<close>

type_synonym 'd outcome = "js_error option \<times> 'd \<times> event list"

text \<open>The \<open>for await\<close> loop of \<open>processTable\<close>.\<close>

fun streamLoop ::
  "'d connectors \<Rightarrow> string \<Rightarrow> FieldInfo list \<Rightarrow> string list \<Rightarrow> nat \<Rightarrow> batch_stream \<Rightarrow> nat \<Rightarrow> 'd
     \<Rightarrow> 'd outcome" where
  "streamLoop C tableName filteredFields anonymizeFields totalRows StreamEnd processedRows d =
     (None, d, [])"
| "streamLoop C tableName filteredFields anonymizeFields totalRows (StreamError e) processedRows d =
     (Some e, d, [])"
| "streamLoop C tableName filteredFields anonymizeFields totalRows (StreamBatch batch rest)
       processedRows d =
     (case processBatch batch filteredFields anonymizeFields of
        Inl e \<Rightarrow> (Some e, d, [])
      | Inr processedBatch \<Rightarrow>
          (case dst_insertData C tableName processedBatch d of
             (Some e, d') \<Rightarrow> (Some e, d', [InsertData tableName processedBatch])
           | (None, d') \<Rightarrow>
               (let processedRows' = processedRows + length batch;
                    evs = InsertData tableName processedBatch #
                          (if progressCallback C
                           then [Progress tableName processedRows' totalRows] else [])
                in case streamLoop C tableName filteredFields anonymizeFields totalRows rest
                          processedRows' d' of
                     (r, d'', evs') \<Rightarrow> (r, d'', evs @ evs'))))"

text \<open>
  \<open>processTable(tableName, anonymizeFields = [], excludeFields = [], batchSize = 1000)\<close>: an
  argument left out or \<open>undefined\<close> is \<open>None\<close>.
\<close>

definition processTable ::
  "'d connectors \<Rightarrow> string \<Rightarrow> string list option \<Rightarrow> string list option \<Rightarrow> int option \<Rightarrow> 'd
     \<Rightarrow> 'd outcome" where
  "processTable C tableName anonymizeFieldsArg excludeFieldsArg batchSizeArg d =
     (let anonymizeFields = or_default [] anonymizeFieldsArg;
          excludeFields = or_default [] excludeFieldsArg;
          batchSize = or_default 1000 batchSizeArg
      in case src_getTableInfo C tableName of
           Inl e \<Rightarrow> (Some e, d, [GetTableInfo tableName])
         | Inr sourceTableInfo \<Rightarrow>
             (let filteredFields =
                    filter (\<lambda>field. field_name field \<notin> set excludeFields)
                      (table_fields sourceTableInfo);
                  destTableInfo =
                    \<lparr>table_name = tableName, table_fields = filteredFields, rowCount = None\<rparr>
              in case dst_createTable C destTableInfo d of
                   (Some e, d') \<Rightarrow> (Some e, d', [GetTableInfo tableName, CreateTable destTableInfo])
                 | (None, d') \<Rightarrow>
                     (let totalRows = or_default 0 (rowCount sourceTableInfo)
                      in case streamLoop C tableName filteredFields anonymizeFields totalRows
                                (src_streamTableData C tableName batchSize) 0 d' of
                           (r, d'', evs) \<Rightarrow>
                             (r, d'',
                              [GetTableInfo tableName, CreateTable destTableInfo,
                               StreamTableData tableName batchSize] @ evs))))"

fun processAllTables :: "'d connectors \<Rightarrow> TableConfig list \<Rightarrow> 'd \<Rightarrow> 'd outcome" where
  "processAllTables C [] d = (None, d, [])"
| "processAllTables C (t # rest) d =
     (case processTable C (tc_name t) (tc_anonymizeFields t) (tc_excludeFields t) (tc_batchSize t) d of
        (Some e, d', evs) \<Rightarrow> (Some e, d', evs)
      | (None, d', evs) \<Rightarrow>
          (case processAllTables C rest d' of (r, d'', evs') \<Rightarrow> (r, d'', evs @ evs')))"

text \<open>Reading a run: the tables described, created, streamed, the batches written, the reports.\<close>

fun ev_attempted :: "event \<Rightarrow> string list" where
  "ev_attempted (GetTableInfo n) = [n]"
| "ev_attempted _ = []"

fun ev_created :: "event \<Rightarrow> TableInfo list" where
  "ev_created (CreateTable ti) = [ti]"
| "ev_created _ = []"

fun ev_streamed :: "event \<Rightarrow> (string \<times> int) list" where
  "ev_streamed (StreamTableData n bs) = [(n, bs)]"
| "ev_streamed _ = []"

fun ev_inserted :: "event \<Rightarrow> row list list" where
  "ev_inserted (InsertData n rows) = [rows]"
| "ev_inserted _ = []"

fun ev_progress :: "event \<Rightarrow> (string \<times> nat \<times> nat) list" where
  "ev_progress (Progress n p tot) = [(n, p, tot)]"
| "ev_progress _ = []"

definition attempted_tables :: "event list \<Rightarrow> string list" where
  "attempted_tables evs = concat (map ev_attempted evs)"

definition created_tables :: "event list \<Rightarrow> TableInfo list" where
  "created_tables evs = concat (map ev_created evs)"

definition stream_requests :: "event list \<Rightarrow> (string \<times> int) list" where
  "stream_requests evs = concat (map ev_streamed evs)"

definition inserted_batches :: "event list \<Rightarrow> row list list" where
  "inserted_batches evs = concat (map ev_inserted evs)"

definition progress_reports :: "event list \<Rightarrow> (string \<times> nat \<times> nat) list" where
  "progress_reports evs = concat (map ev_progress evs)"

section \<open>AnalysisReporter: \<open>Debaser.analyze\<close> (index.ts)\<close>

text \<open>The pattern list written inside the filter of \<open>analyze\<close> (and of the \<open>analyze\<close> command).\<close>

definition analyzePatterns :: "string list" where
  "analyzePatterns =
     [''email'', ''mail'', ''name'', ''phone'', ''address'',
      ''password'', ''secret'', ''ssn'', ''credit_card'']"

definition analyze_isSensitive :: "FieldInfo \<Rightarrow> bool" where
  "analyze_isSensitive field =
     list_ex (\<lambda>pattern. regex_test_i pattern (field_name field)) analyzePatterns"

record TableAnalysis =
  ta_name :: string
  ta_rowCount :: nat
  sensitiveFields :: "string list"
  allFields :: "(string \<times> string \<times> bool) list"

definition analyzeTable :: "string \<Rightarrow> TableInfo \<Rightarrow> TableAnalysis" where
  "analyzeTable tableName tableInfo =
     \<lparr>ta_name = tableName,
      ta_rowCount = or_default 0 (rowCount tableInfo),
      sensitiveFields = map field_name (filter analyze_isSensitive (table_fields tableInfo)),
      allFields = map (\<lambda>field. (field_name field, field_type field, nullable field))
                      (table_fields tableInfo)\<rparr>"

fun analyze_loop ::
  "(string \<Rightarrow> js_error + TableInfo) \<Rightarrow> string list \<Rightarrow> js_error + TableAnalysis list" where
  "analyze_loop getInfo [] = Inr []"
| "analyze_loop getInfo (tableName # rest) =
     (case getInfo tableName of
        Inl e \<Rightarrow> Inl e
      | Inr tableInfo \<Rightarrow>
          (case analyze_loop getInfo rest of
             Inl e \<Rightarrow> Inl e
           | Inr analysis \<Rightarrow> Inr (analyzeTable tableName tableInfo # analysis)))"

definition analyze :: "'d connectors \<Rightarrow> js_error + TableAnalysis list" where
  "analyze C =
     (case src_getTables C of
        Inl e \<Rightarrow> Inl e
      | Inr tables \<Rightarrow> analyze_loop (src_getTableInfo C) tables)"

section \<open>Connectors: \<open>insertData\<close> (connectors/mysql.ts, connectors/postgresql.ts)\<close>

text \<open>
  What \<open>insertData\<close> sends to the database driver: statements, each a query text with its
  parameter list. The first argument tells whether the pool is connected.
\<close>

datatype statement = Statement string "jsval list"

definition mysql_insertData :: "bool \<Rightarrow> string \<Rightarrow> row list \<Rightarrow> statement list" where
  "mysql_insertData pool tableName data =
     (if \<not> pool \<or> data = [] then []
      else (let columns = object_keys (hd data);
                placeholders = join '', '' (map (\<lambda>_. ''?'') columns);
                query = ''INSERT INTO `'' @ tableName @ ''` (`'' @ join ''`, `'' columns
                        @ ''`) VALUES ('' @ placeholders @ '')'';
                vals = map (\<lambda>r. map (\<lambda>col. row_get r col) columns) data
            in [Statement query (concat vals)]))"

definition postgresql_insertData :: "bool \<Rightarrow> string \<Rightarrow> row list \<Rightarrow> statement list" where
  "postgresql_insertData pool tableName data =
     (if \<not> pool \<or> data = [] then []
      else (let columns = object_keys (hd data);
                placeholders =
                  join '', '' (map (\<lambda>i. ''$'' @ show_nat (i + 1)) [0..<length columns]);
                query = ''INSERT INTO \"'' @ tableName @ ''\" (\"'' @ join ''\", \"'' columns
                        @ ''\") VALUES ('' @ placeholders @ '')''
            in map (\<lambda>r. Statement query (map (\<lambda>col. row_get r col) columns)) data))"

section \<open>Configuration: \<open>ConfigParser.validateConfig\<close> and the callers of the processor\<close>

text \<open>
  The parsed configuration file, before validation: \<open>source\<close>, \<open>destination\<close> and \<open>tables\<close> may
  be missing (\<open>tables\<close> is also \<open>None\<close> when it is not an array). The database entries are
  checked by \<open>validateDatabaseConfig\<close>, a parameter here.
\<close>

record 'r RawConfig =
  raw_source :: "'r option"
  raw_destination :: "'r option"
  raw_tables :: "TableConfig list option"
  raw_batchSize :: "int option"
  raw_parallel :: "int option"

record 'c DebaserConfig =
  cfg_source :: 'c
  cfg_destination :: 'c
  cfg_tables :: "TableConfig list"
  cfg_batchSize :: "int option"
  cfg_parallel :: "int option"

definition validateConfig ::
  "('r \<Rightarrow> js_error + 'c) \<Rightarrow> 'r RawConfig \<Rightarrow> js_error + 'c DebaserConfig" where
  "validateConfig validateDatabaseConfig config =
     (case raw_source config of
        None \<Rightarrow> Inl (Error ''Configuration must specify a source database'')
      | Some src \<Rightarrow>
     (case raw_destination config of
        None \<Rightarrow> Inl (Error ''Configuration must specify a destination database'')
      | Some dst \<Rightarrow>
     (case raw_tables config of
        None \<Rightarrow> Inl (Error ''Configuration must specify tables to migrate'')
      | Some tables \<Rightarrow>
     (case validateDatabaseConfig src of
        Inl e \<Rightarrow> Inl e
      | Inr source \<Rightarrow>
     (case validateDatabaseConfig dst of
        Inl e \<Rightarrow> Inl e
      | Inr destination \<Rightarrow>
          Inr \<lparr>cfg_source = source,
               cfg_destination = destination,
               cfg_tables =
                 map (\<lambda>t. \<lparr>tc_name = tc_name t,
                            tc_anonymizeFields = Some (or_default [] (tc_anonymizeFields t)),
                            tc_excludeFields = Some (or_default [] (tc_excludeFields t)),
                            tc_batchSize = js_or (tc_batchSize t) (Some 1000)\<rparr>) tables,
               cfg_batchSize = js_or (raw_batchSize config) (Some 1000),
               cfg_parallel = js_or (raw_parallel config) (Some 1)\<rparr>)))))"

text \<open>
  The table loop of the \<open>migrate\<close> command (\<open>migrateData\<close>): each table is processed with
  \<open>table.batchSize || config.batchSize\<close>, and an exception is thrown again after the spinner
  has reported it.
\<close>

fun migrateData_loop :: "'d connectors \<Rightarrow> int option \<Rightarrow> TableConfig list \<Rightarrow> 'd \<Rightarrow> 'd outcome" where
  "migrateData_loop C configBatchSize [] d = (None, d, [])"
| "migrateData_loop C configBatchSize (t # rest) d =
     (case processTable C (tc_name t) (tc_anonymizeFields t) (tc_excludeFields t)
             (js_or (tc_batchSize t) configBatchSize) d of
        (Some e, d', evs) \<Rightarrow> (Some e, d', evs)
      | (None, d', evs) \<Rightarrow>
          (case migrateData_loop C configBatchSize rest d' of
             (r, d'', evs') \<Rightarrow> (r, d'', evs @ evs')))"

definition migrateData_tables :: "'d connectors \<Rightarrow> 'c DebaserConfig \<Rightarrow> 'd \<Rightarrow> 'd outcome" where
  "migrateData_tables C config d =
     (if cfg_tables config = [] then
        (case src_getTables C of
           Inl e \<Rightarrow> (Some e, d, [])
         | Inr availableTables \<Rightarrow>
             migrateData_loop C (cfg_batchSize config)
               (map (\<lambda>n. \<lparr>tc_name = n, tc_anonymizeFields = None, tc_excludeFields = None,
                           tc_batchSize = None\<rparr>) availableTables) d)
      else migrateData_loop C (cfg_batchSize config) (cfg_tables config) d)"

text \<open>\<open>Debaser.migrate\<close>: the configured tables go to \<open>processAllTables\<close> as they are.\<close>

definition migrate :: "'d connectors \<Rightarrow> 'c DebaserConfig \<Rightarrow> 'd \<Rightarrow> 'd outcome" where
  "migrate C config d = processAllTables C (cfg_tables config) d"

section \<open>An example database\<close>

text \<open>
  A source with one table \<open>users\<close> of three rows, delivered in batches of two, and a
  destination that accepts every call.
\<close>

definition email_field :: FieldInfo where
  "email_field = \<lparr>field_name = ''email'', field_type = ''string'', nullable = True,
                   defaultValue = JUndefined\<rparr>"

definition status_field :: FieldInfo where
  "status_field = \<lparr>field_name = ''status'', field_type = ''string'', nullable = True,
                    defaultValue = JUndefined\<rparr>"

definition demo_fields :: "FieldInfo list" where
  "demo_fields =
     [\<lparr>field_name = ''id'', field_type = ''integer'', nullable = False, defaultValue = JUndefined\<rparr>,
      email_field, status_field]"

definition demo_info :: TableInfo where
  "demo_info = \<lparr>table_name = ''users'', table_fields = demo_fields, rowCount = Some 3\<rparr>"

definition demo_rows :: "row list" where
  "demo_rows =
     [[(''id'', JNumber 1), (''email'', JString ''ann@example.com''), (''status'', JString ''active'')],
      [(''id'', JNumber 2), (''email'', JNull), (''status'', JString ''closed'')],
      [(''id'', JNumber 3), (''email'', JString ''bob@example.org''), (''status'', JString ''active'')]]"

definition demo :: "unit connectors" where
  "demo =
     \<lparr>src_getTables = Inr [''users''],
      src_getTableInfo =
        (\<lambda>n. if n = ''users'' then Inr demo_info else Inl (Error ''no such table'')),
      src_streamTableData = (\<lambda>n bs. stream_of [take 2 demo_rows, drop 2 demo_rows]),
      dst_createTable = (\<lambda>ti d. (None, d)),
      dst_insertData = (\<lambda>n rows d. (None, d)),
      progressCallback = True\<rparr>"

definition users_table :: TableConfig where
  "users_table = \<lparr>tc_name = ''users'', tc_anonymizeFields = None, tc_excludeFields = None,
                   tc_batchSize = None\<rparr>"

definition orders_table :: TableConfig where
  "orders_table = \<lparr>tc_name = ''orders'', tc_anonymizeFields = None, tc_excludeFields = None,
                    tc_batchSize = None\<rparr>"

definition demo_config :: "string RawConfig" where
  "demo_config = \<lparr>raw_source = Some ''prod.db'', raw_destination = Some ''test.db'',
                   raw_tables = Some [users_table], raw_batchSize = Some 500, raw_parallel = None\<rparr>"

text \<open>
  A source whose table \<open>readings\<close> has one column \<open>cell\<close> of native type \<open>real\<close>, holding
  numbers, and a destination that accepts every call.
\<close>

definition cell_field :: FieldInfo where
  "cell_field = \<lparr>field_name = ''cell'', field_type = normalizeFieldType ''real'', nullable = True,
                  defaultValue = JUndefined\<rparr>"

definition readings :: "unit connectors" where
  "readings =
     \<lparr>src_getTables = Inr [''readings''],
      src_getTableInfo =
        (\<lambda>n. Inr \<lparr>table_name = n, table_fields = [cell_field], rowCount = Some 1\<rparr>),
      src_streamTableData = (\<lambda>n bs. stream_of [[[(''cell'', JNumber 5)]]]),
      dst_createTable = (\<lambda>ti d. (None, d)),
      dst_insertData = (\<lambda>n rows d. (None, d)),
      progressCallback = True\<rparr>"

definition demo_run :: "unit outcome" where
  "demo_run = processTable demo ''users'' (Some []) (Some []) (Some 2) ()"

definition demo_exclude_run :: "unit outcome" where
  "demo_exclude_run =
     processTable demo ''users'' (Some [''status'']) (Some [''email'']) (Some 2) ()"

section \<open>Properties of the strings\<close>

lemma toLowerCase_append: "toLowerCase (xs @ ys) = toLowerCase xs @ toLowerCase ys"
  by (simp add: toLowerCase_def)

lemma contains_ci_sublist: "contains_ci s p = sublist (toLowerCase p) (toLowerCase s)"
proof
  assume "contains_ci s p"
  then obtain pre mid suf where "s = pre @ mid @ suf" "toLowerCase mid = toLowerCase p"
    unfolding contains_ci_def by blast
  then have "toLowerCase s = toLowerCase pre @ toLowerCase p @ toLowerCase suf"
    by (simp add: toLowerCase_append)
  then show "sublist (toLowerCase p) (toLowerCase s)"
    unfolding sublist_def by blast
next
  assume "sublist (toLowerCase p) (toLowerCase s)"
  then obtain a b where ab: "map toLowerChar s = a @ map toLowerChar p @ b"
    unfolding sublist_def toLowerCase_def by blast
  then have "\<exists>pre r. s = pre @ r \<and> a = map toLowerChar pre
      \<and> map toLowerChar p @ b = map toLowerChar r"
    by (simp only: map_eq_append_conv)
  then obtain pre r where r: "s = pre @ r" "map toLowerChar r = map toLowerChar p @ b"
    by auto
  from r(2) have "\<exists>mid suf. r = mid @ suf \<and> map toLowerChar p = map toLowerChar mid
      \<and> b = map toLowerChar suf"
    by (simp only: map_eq_append_conv)
  then obtain mid suf where "r = mid @ suf" "map toLowerChar mid = map toLowerChar p"
    by auto
  with r(1) show "contains_ci s p"
    unfolding contains_ci_def toLowerCase_def by blast
qed

lemma contains_ci_literal:
  "toLowerCase p = p \<Longrightarrow> contains_ci s p = str_includes (toLowerCase s) p"
  by (simp add: contains_ci_sublist str_includes_def)

lemma regex_test_i_contains_ci: "regex_test_i p s = contains_ci s p"
  by (simp add: regex_test_i_def contains_ci_sublist)

lemma split_on_pieces:
  "split_on c s =
     takeWhile (\<lambda>x. x \<noteq> c) s #
       (case dropWhile (\<lambda>x. x \<noteq> c) s of [] \<Rightarrow> [] | _ # r \<Rightarrow> split_on c r)"
  by (induction s) (auto split: list.splits)

lemma split_on_first: "\<exists>ps. split_on c s = takeWhile (\<lambda>x. x \<noteq> c) s # ps"
  using split_on_pieces [of c s] by blast

section \<open>TypeNormalizer\<close>

lemma typeRules_match_simps:
  "rule_matches s ([''int'', ''serial''], r) =
     (str_includes (toLowerCase s) ''int'' \<or> str_includes (toLowerCase s) ''serial'')"
  "rule_matches s ([''varchar'', ''text'', ''char''], r) =
     (str_includes (toLowerCase s) ''varchar'' \<or> str_includes (toLowerCase s) ''text''
      \<or> str_includes (toLowerCase s) ''char'')"
  "rule_matches s ([''decimal'', ''numeric'', ''float'', ''double''], r) =
     (str_includes (toLowerCase s) ''decimal'' \<or> str_includes (toLowerCase s) ''numeric''
      \<or> str_includes (toLowerCase s) ''float'' \<or> str_includes (toLowerCase s) ''double'')"
  "rule_matches s ([''date'', ''time'', ''timestamp''], r) =
     (str_includes (toLowerCase s) ''date'' \<or> str_includes (toLowerCase s) ''time''
      \<or> str_includes (toLowerCase s) ''timestamp'')"
  "rule_matches s ([''bool''], r) = str_includes (toLowerCase s) ''bool''"
  "rule_matches s ([''json''], r) = str_includes (toLowerCase s) ''json''"
  "rule_matches s ([''blob'', ''bytea''], r) =
     (str_includes (toLowerCase s) ''blob'' \<or> str_includes (toLowerCase s) ''bytea'')"
  by (simp_all add: rule_matches_def contains_ci_literal toLowerCase_def toLowerChar_def)

lemma normalizeFieldType_first_match: "normalizeFieldType s = first_match typeRules s"
  by (simp add: normalizeFieldType_def typeRules_def typeRules_match_simps Let_def)

lemma normalizeFieldType_vocabulary: "normalizeFieldType s \<in> set semanticTypes"
  by (simp add: normalizeFieldType_def semanticTypes_def Let_def)

text \<open>
  C8. \<open>normalizeFieldType\<close> is total with values in the seven-value vocabulary; a type name
  that contains \<open>int\<close> or \<open>serial\<close>, letter case ignored, is an \<open>integer\<close>; the result is that
  of the first rule of the ordered table int/serial, varchar/text/char,
  decimal/numeric/float/double, date/time/timestamp, bool, json, blob/bytea that matches by
  case-insensitive containment; a name that matches no rule is a \<open>string\<close>.
\<close>

theorem normalizeFieldType_total_first_match_wins:
  "normalizeFieldType s \<in> set semanticTypes
   \<and> (contains_ci s ''int'' \<or> contains_ci s ''serial'' \<longrightarrow> normalizeFieldType s = ''integer'')
   \<and> normalizeFieldType s = first_match typeRules s
   \<and> ((\<forall>rule \<in> set typeRules. \<not> rule_matches s rule) \<longrightarrow> normalizeFieldType s = ''string'')"
proof (intro conjI impI)
  show "normalizeFieldType s \<in> set semanticTypes"
    by (rule normalizeFieldType_vocabulary)
next
  assume "contains_ci s ''int'' \<or> contains_ci s ''serial''"
  then have "str_includes (toLowerCase s) ''int'' \<or> str_includes (toLowerCase s) ''serial''"
    by (simp add: contains_ci_literal toLowerCase_def toLowerChar_def)
  then show "normalizeFieldType s = ''integer''"
    by (auto simp: normalizeFieldType_def Let_def)
next
  show "normalizeFieldType s = first_match typeRules s"
    by (rule normalizeFieldType_first_match)
next
  assume "\<forall>rule \<in> set typeRules. \<not> rule_matches s rule"
  then show "normalizeFieldType s = ''string''"
    by (simp add: normalizeFieldType_first_match typeRules_def)
qed

theorem normalizeFieldType_total_first_match_wins_witness:
  "contains_ci ''BIGINT(20)'' ''int''
   \<and> normalizeFieldType ''BIGINT(20)'' = ''integer''
   \<and> \<not> (\<exists>rule \<in> set typeRules. rule_matches ''uuid'' rule)
   \<and> normalizeFieldType ''uuid'' = ''string''
   \<and> normalizeFieldType ''timestamptz_int'' = ''integer''"
proof -
  have a: "contains_ci ''BIGINT(20)'' ''int''"
    by (simp add: contains_ci_sublist toLowerCase_def toLowerChar_def sublist_code)
  have b: "\<forall>rule \<in> set typeRules. \<not> rule_matches ''uuid'' rule"
    by (simp add: typeRules_def typeRules_match_simps str_includes_def toLowerCase_def
        toLowerChar_def sublist_code)
  have c: "normalizeFieldType ''timestamptz_int'' = ''integer''"
    by (simp add: normalizeFieldType_def str_includes_def toLowerCase_def toLowerChar_def
        sublist_code)
  from a b c normalizeFieldType_total_first_match_wins [of "''BIGINT(20)''"]
    normalizeFieldType_total_first_match_wins [of "''uuid''"]
  show ?thesis by blast
qed

section \<open>FieldClassifier\<close>

lemma anonymizeEmail_closed_form:
  "anonymizeEmail v =
     (if before_at (after_at v) = [] then email_placeholder
      else mask_local (before_at v) @ ''@'' @ before_at (after_at v))"
proof (cases "dropWhile (\<lambda>x. x \<noteq> CHR ''@'') v")
  case Nil
  have "split_on CHR ''@'' v = [takeWhile (\<lambda>x. x \<noteq> CHR ''@'') v]"
    by (subst split_on_pieces) (simp only: Nil list.case)
  moreover have "after_at v = []"
    unfolding after_at_def by (simp only: Nil drop_Nil)
  ultimately show ?thesis
    by (simp add: anonymizeEmail_def before_at_def email_placeholder_def)
next
  case (Cons a r)
  obtain ps where ps: "split_on CHR ''@'' r = takeWhile (\<lambda>x. x \<noteq> CHR ''@'') r # ps"
    using split_on_first by blast
  have "split_on CHR ''@'' v
      = takeWhile (\<lambda>x. x \<noteq> CHR ''@'') v # takeWhile (\<lambda>x. x \<noteq> CHR ''@'') r # ps"
    by (subst split_on_pieces) (simp only: Cons list.case ps)
  moreover have "after_at v = r"
    unfolding after_at_def by (simp only: Cons) simp
  ultimately show ?thesis
    by (simp add: anonymizeEmail_def before_at_def email_placeholder_def
        mask_local_def Let_def not_less)
qed

text \<open>
  C6 as stated fails: a second \<open>@\<close> cuts the domain, and a value that ends with its only \<open>@\<close>
  gets the placeholder.
\<close>

theorem anonymizeEmail_domain_counterexample:
  "anonymizeEmail ''ab@c@d'' = ''**@c'' \<and> anonymizeEmail_spec ''ab@c@d'' = ''**@c@d''
   \<and> anonymizeEmail ''abc@'' = ''anonymous@example.com'' \<and> anonymizeEmail_spec ''abc@'' = ''ab*@''"
  by (simp add: anonymizeEmail_def anonymizeEmail_spec_def after_at_def before_at_def
      mask_local_def stars_def email_placeholder_def)

text \<open>
  C6, as amended. \<open>anonymizeEmail\<close> uses the first two pieces of the value split at every \<open>@\<close>.
  When the piece after the first \<open>@\<close> (up to the next \<open>@\<close> or the end) is empty, which includes
  a value without \<open>@\<close>, the result is the placeholder; otherwise it is the first 2 characters
  of the local part, one \<open>*\<close> for each further character of it (exactly \<open>**\<close> for a local part
  of length at most 2), \<open>@\<close>, and that piece. The result is the one of the specification
  whenever the text after the first \<open>@\<close> is not empty and holds no further \<open>@\<close>.
\<close>

theorem anonymizeEmail_keeps_first_domain_piece:
  "anonymizeEmail v =
     (if before_at (after_at v) = [] then email_placeholder
      else mask_local (before_at v) @ ''@'' @ before_at (after_at v))
   \<and> (CHR ''@'' \<notin> set v \<longrightarrow> anonymizeEmail v = email_placeholder)
   \<and> (after_at v \<noteq> [] \<and> CHR ''@'' \<notin> set (after_at v)
        \<longrightarrow> anonymizeEmail v = anonymizeEmail_spec v)"
proof (intro conjI impI)
  show "anonymizeEmail v =
     (if before_at (after_at v) = [] then email_placeholder
      else mask_local (before_at v) @ ''@'' @ before_at (after_at v))"
    by (rule anonymizeEmail_closed_form)
next
  assume "CHR ''@'' \<notin> set v"
  then have "dropWhile (\<lambda>c. c \<noteq> CHR ''@'') v = []"
    by (auto simp: dropWhile_eq_Nil_conv)
  then have "after_at v = []"
    unfolding after_at_def by (simp only: drop_Nil)
  then show "anonymizeEmail v = email_placeholder"
    by (simp add: anonymizeEmail_closed_form before_at_def)
next
  assume a: "after_at v \<noteq> [] \<and> CHR ''@'' \<notin> set (after_at v)"
  then have "before_at (after_at v) = after_at v"
    by (auto simp: before_at_def takeWhile_eq_all_conv)
  moreover have "CHR ''@'' \<in> set v"
  proof (rule ccontr)
    assume "CHR ''@'' \<notin> set v"
    then have "dropWhile (\<lambda>c. c \<noteq> CHR ''@'') v = []"
      by (auto simp: dropWhile_eq_Nil_conv)
    then have "after_at v = []"
      unfolding after_at_def by (simp only: drop_Nil)
    with a show False by simp
  qed
  ultimately show "anonymizeEmail v = anonymizeEmail_spec v"
    using a by (simp add: anonymizeEmail_closed_form anonymizeEmail_spec_def)
qed

theorem anonymizeEmail_keeps_first_domain_piece_witness:
  "after_at ''john.doe@example.com'' \<noteq> []
   \<and> CHR ''@'' \<notin> set (after_at ''john.doe@example.com'')
   \<and> anonymizeEmail ''john.doe@example.com'' = anonymizeEmail_spec ''john.doe@example.com''
   \<and> anonymizeEmail ''john.doe@example.com'' = ''jo******@example.com''
   \<and> CHR ''@'' \<notin> set ''nobody''
   \<and> anonymizeEmail ''nobody'' = ''anonymous@example.com''"
proof -
  have a: "after_at ''john.doe@example.com'' \<noteq> []
      \<and> CHR ''@'' \<notin> set (after_at ''john.doe@example.com'')"
    by (simp add: after_at_def)
  have b: "anonymizeEmail_spec ''john.doe@example.com'' = ''jo******@example.com''"
    by (simp add: anonymizeEmail_spec_def after_at_def before_at_def mask_local_def stars_def)
  have c: "CHR ''@'' \<notin> set ''nobody''" by simp
  from a b c anonymizeEmail_keeps_first_domain_piece [of "''john.doe@example.com''"]
    anonymizeEmail_keeps_first_domain_piece [of "''nobody''"]
  show ?thesis
    by (simp add: email_placeholder_def after_at_def before_at_def mask_local_def stars_def)
qed

text \<open>
  C10. Where \<open>shouldAnonymize\<close> is false for the name and type of a field, \<open>anonymizeField\<close>
  returns every value unchanged, strings or not.
\<close>

theorem anonymizeField_identity_when_not_flagged:
  "\<not> shouldAnonymize fieldName fieldType \<Longrightarrow> anonymizeField fieldName v fieldType = Inr v"
  by (simp add: anonymizeField_def)

theorem anonymizeField_identity_when_not_flagged_witness:
  "\<not> shouldAnonymize ''email'' ''integer''
   \<and> anonymizeField ''email'' (JNumber 7) ''integer'' = Inr (JNumber 7)
   \<and> \<not> shouldAnonymize ''status'' ''string''
   \<and> anonymizeField ''status'' (JString ''active'') ''string'' = Inr (JString ''active'')"
proof -
  have a: "\<not> shouldAnonymize ''email'' ''integer''"
    by (simp add: shouldAnonymize_def)
  have b: "\<not> shouldAnonymize ''status'' ''string''"
    by (simp add: shouldAnonymize_def sensitivePatterns_def regex_test_i_def toLowerCase_def
        toLowerChar_def sublist_code)
  from anonymizeField_identity_when_not_flagged [OF a]
    anonymizeField_identity_when_not_flagged [OF b] a b
  show ?thesis by simp
qed

section \<open>The user's anonymize list\<close>

text \<open>
  C1. A retained field \<open>status\<close> of type \<open>string\<close>, named in \<open>anonymizeFields\<close>, holds
  \<open>active\<close>: \<open>processRow\<close> writes \<open>active\<close>, not the masked \<open>a****e\<close>, because \<open>anonymizeField\<close>
  asks \<open>shouldAnonymize\<close> again.
\<close>

theorem processRow_anonymize_list_has_no_effect:
  "processRow [(''status'', JString ''active'')] [status_field] [''status'']
     = Inr [(''status'', JString ''active'')]
   \<and> anonymizeGeneric ''active'' = ''a****e''"
  by code_simp

text \<open>
  No member of \<open>Object.prototype\<close> has a name the classifier flags: what \<open>row_get\<close> finds
  for a key the row lacks is written as it is and never reaches a transform.
\<close>

lemma prototype_members_not_flagged:
  "k \<in> set object_prototype_keys \<Longrightarrow> \<not> shouldAnonymize k t"
proof -
  have "list_all (\<lambda>k. \<not> list_ex (\<lambda>p. regex_test_i p k) sensitivePatterns) object_prototype_keys"
    by code_simp
  then show "k \<in> set object_prototype_keys \<Longrightarrow> \<not> shouldAnonymize k t"
    by (simp add: list_all_iff shouldAnonymize_def)
qed

lemma processRow_loop_anonymizeFields_inert:
  "processRow_loop fs r anonymizeFields acc = processRow_loop fs r [] acc"
proof (induction fs arbitrary: acc)
  case Nil
  then show ?case by simp
next
  case (Cons f fs)
  show ?case
  proof (cases "shouldAnonymize (field_name f) (field_type f)")
    case True
    then show ?thesis by (simp add: Cons.IH Let_def split: sum.splits)
  next
    case False
    then have "anonymizeField (field_name f) v (field_type f) = Inr v" for v
      by (simp add: anonymizeField_def)
    with False show ?thesis by (simp add: Cons.IH Let_def)
  qed
qed

lemma processRow_anonymizeFields_inert: "processRow r fs anonymizeFields = processRow r fs []"
  by (simp add: processRow_def processRow_loop_anonymizeFields_inert [of fs r anonymizeFields])

section \<open>Excluded fields\<close>

lemma set_insert_index: "set (insert_index n kv r) = insert kv (set r)"
  by (induction r) (auto split: option.splits)

lemma row_set_keys: "fst ` set (row_set r k v) \<subseteq> insert k (fst ` set r)"
proof (cases "array_index k")
  case None
  then show ?thesis
    by (auto simp: row_set_def dom_update)
next
  case (Some n)
  then show ?thesis
    by (auto simp: row_set_def dom_update set_insert_index)
qed

lemma processRow_loop_keys:
  "processRow_loop fs r af acc = Inr r' \<Longrightarrow> fst ` set r' \<subseteq> fst ` set acc \<union> field_name ` set fs"
proof (induction fs arbitrary: acc)
  case Nil
  then show ?case by simp
next
  case (Cons f fs)
  from Cons.prems obtain v where
    "processRow_loop fs r af (row_set acc (field_name f) v) = Inr r'"
    by (auto simp: Let_def split: if_splits sum.splits)
  from Cons.IH [OF this] row_set_keys [of acc "field_name f" v] show ?case
    by auto
qed

lemma processRow_keys: "processRow r fs af = Inr r' \<Longrightarrow> fst ` set r' \<subseteq> field_name ` set fs"
  unfolding processRow_def by (drule processRow_loop_keys) simp

lemma processBatch_keys:
  "processBatch b fs af = Inr pb \<Longrightarrow> r' \<in> set pb \<Longrightarrow> fst ` set r' \<subseteq> field_name ` set fs"
proof (induction b arbitrary: pb)
  case Nil
  then show ?case by simp
next
  case (Cons r rs)
  from Cons.prems(1) obtain r1 rs1 where parts:
    "processRow r fs af = Inr r1" "processBatch rs fs af = Inr rs1" "pb = r1 # rs1"
    by (auto split: sum.splits)
  from Cons.prems(2) parts(3) consider "r' = r1" | "r' \<in> set rs1" by auto
  then show ?case
  proof cases
    case 1 with processRow_keys [OF parts(1)] show ?thesis by simp
  next
    case 2 from Cons.IH [OF parts(2) 2] show ?thesis .
  qed
qed

lemma processBatch_length: "processBatch b fs af = Inr pb \<Longrightarrow> length pb = length b"
  by (induction b arbitrary: pb) (auto split: sum.splits)

lemma streamLoop_events:
  "streamLoop C t ff af tot s p d = (r, d', evs) \<Longrightarrow> ev \<in> set evs \<Longrightarrow>
     (\<exists>pb. ev = InsertData t pb \<and> (\<forall>row \<in> set pb. fst ` set row \<subseteq> field_name ` set ff))
     \<or> (\<exists>q. ev = Progress t q tot)"
proof (induction s arbitrary: p d r d' evs)
  case StreamEnd
  then show ?case by simp
next
  case (StreamBatch batch rest)
  show ?case
  proof (cases "processBatch batch ff af")
    case (Inl e)
    with StreamBatch.prems show ?thesis by simp
  next
    case (Inr pb)
    have keys: "\<forall>row \<in> set pb. fst ` set row \<subseteq> field_name ` set ff"
      using processBatch_keys [OF Inr] by blast
    obtain res d1 where ins: "dst_insertData C t pb d = (res, d1)"
      by (cases "dst_insertData C t pb d")
    show ?thesis
    proof (cases res)
      case (Some e)
      with StreamBatch.prems Inr ins keys show ?thesis by auto
    next
      case None
      obtain r2 d2 evs2 where rec:
        "streamLoop C t ff af tot rest (p + length batch) d1 = (r2, d2, evs2)"
        by (cases "streamLoop C t ff af tot rest (p + length batch) d1")
      with StreamBatch.prems(1) Inr ins None
      have evs: "evs = InsertData t pb #
          (if progressCallback C then [Progress t (p + length batch) tot] else []) @ evs2"
        by (simp add: Let_def)
      with StreamBatch.prems(2) consider "ev = InsertData t pb"
        | "ev = Progress t (p + length batch) tot" | "ev \<in> set evs2"
        by (auto split: if_splits)
      then show ?thesis
      proof cases
        case 1 with keys show ?thesis by blast
      next
        case 2 then show ?thesis by blast
      next
        case 3 from StreamBatch.IH [OF rec 3] show ?thesis .
      qed
    qed
  qed
next
  case (StreamError e)
  then show ?case by simp
qed

lemma processTable_events:
  assumes "processTable C t af ex bs d = (r, d', evs)" and "ev \<in> set evs"
  shows "ev = GetTableInfo t
     \<or> (\<exists>info. src_getTableInfo C t = Inr info \<and>
           ev = CreateTable \<lparr>table_name = t,
                  table_fields = filter (\<lambda>f. field_name f \<notin> set (or_default [] ex)) (table_fields info),
                  rowCount = None\<rparr>)
     \<or> ev = StreamTableData t (or_default 1000 bs)
     \<or> (\<exists>pb. ev = InsertData t pb \<and>
           (\<forall>row \<in> set pb. \<forall>x \<in> set (or_default [] ex). x \<notin> fst ` set row))
     \<or> (\<exists>q tot. ev = Progress t q tot)"
proof (cases "src_getTableInfo C t")
  case (Inl e)
  with assms show ?thesis by (auto simp: processTable_def)
next
  case (Inr info)
  let ?ff = "filter (\<lambda>f. field_name f \<notin> set (or_default [] ex)) (table_fields info)"
  let ?ti = "\<lparr>table_name = t, table_fields = ?ff, rowCount = None\<rparr>"
  obtain res d1 where cr: "dst_createTable C ?ti d = (res, d1)"
    by (cases "dst_createTable C ?ti d")
  show ?thesis
  proof (cases res)
    case (Some e)
    with assms Inr cr show ?thesis by (auto simp: processTable_def Let_def)
  next
    case None
    obtain r2 d2 evs2 where loop:
      "streamLoop C t ?ff (or_default [] af) (or_default 0 (rowCount info))
         (src_streamTableData C t (or_default 1000 bs)) 0 d1 = (r2, d2, evs2)"
      by (cases "streamLoop C t ?ff (or_default [] af) (or_default 0 (rowCount info))
         (src_streamTableData C t (or_default 1000 bs)) 0 d1")
    with assms(1) Inr cr None
    have "evs = [GetTableInfo t, CreateTable ?ti, StreamTableData t (or_default 1000 bs)] @ evs2"
      by (simp add: processTable_def Let_def)
    with assms(2) consider "ev = GetTableInfo t" | "ev = CreateTable ?ti"
      | "ev = StreamTableData t (or_default 1000 bs)" | "ev \<in> set evs2"
      by auto
    then show ?thesis
    proof cases
      case 1 then show ?thesis by blast
    next
      case 2 with Inr show ?thesis by blast
    next
      case 3 then show ?thesis by blast
    next
      case 4
      from streamLoop_events [OF loop 4] consider
        pb where "ev = InsertData t pb" "\<forall>row \<in> set pb. fst ` set row \<subseteq> field_name ` set ?ff"
        | q where "ev = Progress t q (or_default 0 (rowCount info))"
        by blast
      then show ?thesis
      proof cases
        case 1
        from 1(2) have "\<forall>row \<in> set pb. \<forall>x \<in> set (or_default [] ex). x \<notin> fst ` set row"
          by fastforce
        with 1(1) show ?thesis by blast
      next
        case 2 then show ?thesis by blast
      qed
    qed
  qed
qed

text \<open>
  C2. In a run of \<open>processTable\<close>, whatever its outcome, a field name of \<open>excludeFields\<close> is not
  among the fields of the schema passed to \<open>createTable\<close>, and is not a key of any row of any
  batch passed to \<open>insertData\<close>.
\<close>

theorem excluded_fields_never_written:
  assumes "processTable C tableName anonymizeFields (Some excludeFields) batchSize d = (r, d', evs)"
    and "x \<in> set excludeFields"
  shows "(\<forall>destTableInfo. CreateTable destTableInfo \<in> set evs
            \<longrightarrow> x \<notin> field_name ` set (table_fields destTableInfo))
       \<and> (\<forall>n processedBatch. InsertData n processedBatch \<in> set evs
            \<longrightarrow> (\<forall>row \<in> set processedBatch. x \<notin> fst ` set row))"
proof (intro conjI allI impI)
  fix destTableInfo
  assume "CreateTable destTableInfo \<in> set evs"
  from processTable_events [OF assms(1) this] assms(2)
  show "x \<notin> field_name ` set (table_fields destTableInfo)"
    by (auto simp: or_default_def)
next
  fix n processedBatch
  assume "InsertData n processedBatch \<in> set evs"
  from processTable_events [OF assms(1) this] assms(2)
  show "\<forall>row \<in> set processedBatch. x \<notin> fst ` set row"
    by (auto simp: or_default_def)
qed

theorem excluded_fields_never_written_witness:
  "''email'' \<in> set [''email'']
   \<and> length (concat (inserted_batches (snd (snd demo_exclude_run)))) = 3
   \<and> \<not> (\<exists>destTableInfo. CreateTable destTableInfo \<in> set (snd (snd demo_exclude_run))
           \<and> ''email'' \<in> field_name ` set (table_fields destTableInfo))
   \<and> \<not> (\<exists>n processedBatch row. InsertData n processedBatch \<in> set (snd (snd demo_exclude_run))
           \<and> row \<in> set processedBatch \<and> ''email'' \<in> fst ` set row)"
proof -
  have run: "processTable demo ''users'' (Some [''status'']) (Some [''email'']) (Some 2) ()
      = (fst demo_exclude_run, fst (snd demo_exclude_run), snd (snd demo_exclude_run))"
    by (simp add: demo_exclude_run_def prod_eq_iff)
  have x: "''email'' \<in> set [''email'']" by simp
  have n: "length (concat (inserted_batches (snd (snd demo_exclude_run)))) = 3"
    by code_simp
  from excluded_fields_never_written [OF run x] x n show ?thesis
    by blast
qed

section \<open>A complete run of one table\<close>

lemma stream_of_simps:
  "stream_of [] = StreamEnd"
  "stream_of (b # bs) = StreamBatch b (stream_of bs)"
  by (simp_all add: stream_of_def)

lemma projections_simps:
  "attempted_tables [] = []" "attempted_tables (ev # evs) = ev_attempted ev @ attempted_tables evs"
  "attempted_tables (evs @ evs') = attempted_tables evs @ attempted_tables evs'"
  "created_tables [] = []" "created_tables (ev # evs) = ev_created ev @ created_tables evs"
  "created_tables (evs @ evs') = created_tables evs @ created_tables evs'"
  "inserted_batches [] = []" "inserted_batches (ev # evs) = ev_inserted ev @ inserted_batches evs"
  "inserted_batches (evs @ evs') = inserted_batches evs @ inserted_batches evs'"
  "progress_reports [] = []" "progress_reports (ev # evs) = ev_progress ev @ progress_reports evs"
  "progress_reports (evs @ evs') = progress_reports evs @ progress_reports evs'"
  by (simp_all add: attempted_tables_def created_tables_def inserted_batches_def
      progress_reports_def)

lemma streamLoop_no_schema_events:
  "streamLoop C t ff af tot s p d = (r, d', evs) \<Longrightarrow>
     attempted_tables evs = [] \<and> created_tables evs = []"
proof -
  assume run: "streamLoop C t ff af tot s p d = (r, d', evs)"
  have "\<forall>ev \<in> set evs. ev_attempted ev = [] \<and> ev_created ev = []"
    using streamLoop_events [OF run] by fastforce
  then show ?thesis
    by (simp add: attempted_tables_def created_tables_def)
qed

lemma streamLoop_complete:
  assumes "streamLoop C t ff af tot (stream_of batches) p d = (None, d', evs)"
  shows "map length (inserted_batches evs) = map length batches
     \<and> (progressCallback C \<longrightarrow>
          progress_reports evs =
            map (\<lambda>k. (t, p + length (concat (take (Suc k) batches)), tot)) [0..<length batches])
     \<and> (\<not> progressCallback C \<longrightarrow> progress_reports evs = [])"
  using assms
proof (induction batches arbitrary: p d d' evs)
  case Nil
  then show ?case by (simp add: stream_of_simps projections_simps)
next
  case (Cons b bs)
  from Cons.prems obtain pb where pb: "processBatch b ff af = Inr pb"
    by (auto simp: stream_of_simps split: sum.splits)
  obtain res d1 where ins: "dst_insertData C t pb d = (res, d1)"
    by (cases "dst_insertData C t pb d")
  with Cons.prems pb have res: "res = None"
    by (cases res) (auto simp: stream_of_simps)
  obtain r2 d2 evs2 where rec:
    "streamLoop C t ff af tot (stream_of bs) (p + length b) d1 = (r2, d2, evs2)"
    by (cases "streamLoop C t ff af tot (stream_of bs) (p + length b) d1")
  with Cons.prems pb ins res have r2: "r2 = None" and
    evs: "evs = InsertData t pb #
          (if progressCallback C then [Progress t (p + length b) tot] else []) @ evs2"
    by (simp_all add: stream_of_simps Let_def)
  note IH = Cons.IH [OF rec [unfolded r2]]
  have len: "length pb = length b"
    by (rule processBatch_length [OF pb])
  have ins_ok: "map length (inserted_batches evs) = map length (b # bs)"
    using IH len by (simp add: evs projections_simps)
  have prog: "progress_reports evs =
      map (\<lambda>k. (t, p + length (concat (take (Suc k) (b # bs))), tot)) [0..<length (b # bs)]"
    if cb: "progressCallback C"
  proof -
    have "progress_reports evs = (t, p + length b, tot) # progress_reports evs2"
      using cb by (simp add: evs projections_simps)
    also have "progress_reports evs2 =
        map (\<lambda>k. (t, p + length b + length (concat (take (Suc k) bs)), tot)) [0..<length bs]"
      using IH cb by simp
    finally show ?thesis
      by (simp add: map_upt_Suc add.assoc del: upt_Suc)
  qed
  have quiet: "progress_reports evs = []" if "\<not> progressCallback C"
    using IH that by (simp add: evs projections_simps)
  from ins_ok prog quiet show ?case by blast
qed

lemma processTable_defaults:
  "processTable C t None None None d = processTable C t (Some []) (Some []) (Some 1000) d"
  by (simp add: processTable_def or_default_def)

text \<open>
  C7 as stated fails. The column \<open>cell\<close> of native type \<open>real\<close> has the normalized type
  \<open>string\<close> and a name the classifier flags; its numbers have no \<open>substring\<close>, so the generic
  transform throws although both lists are empty and no connector fails: the run ends with a
  \<open>TypeError\<close>, and of the one row streamed none is passed to \<open>insertData\<close> and none reported.
\<close>

theorem processTable_type_error_writes_no_row:
  "normalizeFieldType ''real'' = ''string''
   \<and> src_streamTableData readings ''readings'' 1000 = stream_of [[[(''cell'', JNumber 5)]]]
   \<and> processTable readings ''readings'' (Some []) (Some []) None ()
       = (Some TypeError, (),
          [GetTableInfo ''readings'',
           CreateTable \<lparr>table_name = ''readings'', table_fields = [cell_field], rowCount = None\<rparr>,
           StreamTableData ''readings'' 1000])"
  by code_simp

text \<open>
  C7, as amended. When the source describes the table and its stream delivers the batches
  \<open>batches\<close>, a run of \<open>processTable\<close> with empty \<open>anonymizeFields\<close> and \<open>excludeFields\<close> that
  ends without an exception (1) has created one destination table, with the fields of the
  source in their order, (2) has passed to \<open>insertData\<close> one batch per source batch, of the same
  size, so that the rows written are as many as the rows streamed, and (3) when a progress
  callback was given, has called it once per batch, the \<open>k\<close>-th call with the number of rows of
  the first \<open>k\<close> batches and with the row count captured before streaming, 0 when there is
  none, the last call reporting all rows; without a callback nothing is reported.
\<close>

theorem processTable_round_trip:
  assumes "src_getTableInfo C tableName = Inr sourceTableInfo"
    and "src_streamTableData C tableName (or_default 1000 batchSize) = stream_of batches"
    and "processTable C tableName (Some []) (Some []) batchSize d = (None, d', evs)"
  shows "created_tables evs =
           [\<lparr>table_name = tableName, table_fields = table_fields sourceTableInfo, rowCount = None\<rparr>]
       \<and> map length (inserted_batches evs) = map length batches
       \<and> length (concat (inserted_batches evs)) = length (concat batches)
       \<and> (progressCallback C \<longrightarrow>
            progress_reports evs =
              map (\<lambda>k. (tableName, length (concat (take (Suc k) batches)),
                         or_default 0 (rowCount sourceTableInfo))) [0..<length batches]
            \<and> (batches \<noteq> [] \<longrightarrow>
                 last (progress_reports evs) =
                   (tableName, length (concat batches), or_default 0 (rowCount sourceTableInfo))))
       \<and> (\<not> progressCallback C \<longrightarrow> progress_reports evs = [])"
proof -
  let ?ti = "\<lparr>table_name = tableName, table_fields = table_fields sourceTableInfo, rowCount = None\<rparr>"
  let ?tot = "or_default 0 (rowCount sourceTableInfo)"
  obtain res d1 where cr: "dst_createTable C ?ti d = (res, d1)"
    by (cases "dst_createTable C ?ti d")
  with assms(1,3) have res: "res = None"
    by (cases res) (auto simp: processTable_def or_default_def)
  obtain r2 d2 evs2 where loop:
    "streamLoop C tableName (table_fields sourceTableInfo) [] ?tot (stream_of batches) 0 d1
       = (r2, d2, evs2)"
    by (cases "streamLoop C tableName (table_fields sourceTableInfo) [] ?tot (stream_of batches) 0 d1")
  from assms(3) have "processTable C tableName (Some []) (Some []) batchSize d
      = (r2, d2, [GetTableInfo tableName, CreateTable ?ti,
                   StreamTableData tableName (or_default 1000 batchSize)] @ evs2)"
    using assms(1,2) cr res loop
    by (simp add: processTable_def Let_def or_default_def [of "[]" "Some []"])
  with assms(3) have r2: "r2 = None" and
    evs: "evs = [GetTableInfo tableName, CreateTable ?ti,
                 StreamTableData tableName (or_default 1000 batchSize)] @ evs2"
    by simp_all
  note sc = streamLoop_no_schema_events [OF loop]
  note cp = streamLoop_complete [OF loop [unfolded r2]]
  have c1: "created_tables evs = [?ti]"
    using sc by (simp add: evs projections_simps)
  have c2: "map length (inserted_batches evs) = map length batches"
    using cp by (simp add: evs projections_simps)
  have c3: "length (concat (inserted_batches evs)) = length (concat batches)"
    using c2 by (simp add: length_concat)
  have c4: "progress_reports evs =
      map (\<lambda>k. (tableName, length (concat (take (Suc k) batches)), ?tot)) [0..<length batches]"
    if "progressCallback C"
    using cp that by (simp add: evs projections_simps)
  have c5: "last (progress_reports evs) = (tableName, length (concat batches), ?tot)"
    if cb: "progressCallback C" and ne: "batches \<noteq> []"
  proof -
    from ne have "[0..<length batches] \<noteq> []" by simp
    then show ?thesis
      using ne by (simp add: c4 [OF cb] last_map Suc_diff_1 del: upt_eq_Nil_conv)
  qed
  have c6: "progress_reports evs = []" if "\<not> progressCallback C"
    using cp that by (simp add: evs projections_simps)
  from c1 c2 c3 c4 c5 c6 show ?thesis by blast
qed

theorem processTable_round_trip_witness:
  "fst demo_run = None
   \<and> progressCallback demo
   \<and> created_tables (snd (snd demo_run))
       = [\<lparr>table_name = ''users'', table_fields = demo_fields, rowCount = None\<rparr>]
   \<and> length (concat (inserted_batches (snd (snd demo_run)))) = length demo_rows
   \<and> progress_reports (snd (snd demo_run)) = [(''users'', 2, 3), (''users'', 3, 3)]"
proof -
  have a: "src_getTableInfo demo ''users'' = Inr demo_info"
    by (simp add: demo_def)
  have b: "src_streamTableData demo ''users'' (or_default 1000 (Some 2))
      = stream_of [take 2 demo_rows, drop 2 demo_rows]"
    by (simp add: demo_def or_default_def)
  have c: "progressCallback demo"
    by (simp add: demo_def)
  have ok: "fst demo_run = None"
    by code_simp
  then have run: "processTable demo ''users'' (Some []) (Some []) (Some 2) ()
      = (None, fst (snd demo_run), snd (snd demo_run))"
    by (simp add: demo_run_def prod_eq_iff)
  have n: "[take 2 demo_rows, drop 2 demo_rows] \<noteq> [] \<and> length demo_rows = 3"
    by (simp add: demo_rows_def)
  from processTable_round_trip [OF a b run] c ok n show ?thesis
    by (simp add: or_default_def demo_rows_def demo_info_def upt_rec)
qed

text \<open>
  Such runs exist: a run ends without an exception when no call of the destination fails and
  every row can be transformed, which is the case when the values are strings or absent.
\<close>

lemma anonymizeField_string_or_absent:
  "v \<in> insert JNull (insert JUndefined (range JString)) \<Longrightarrow> \<exists>v'. anonymizeField n v t = Inr v'"
  by (auto simp: anonymizeField_def)

lemma processRow_loop_strings:
  assumes "\<forall>f \<in> set fs. row_get r (field_name f) \<in> insert JNull (insert JUndefined (range JString))"
  shows "\<exists>r'. processRow_loop fs r af acc = Inr r'"
  using assms
proof (induction fs arbitrary: acc)
  case Nil
  then show ?case by simp
next
  case (Cons f fs)
  have "row_get r (field_name f) \<in> insert JNull (insert JUndefined (range JString))"
    using Cons.prems by simp
  from anonymizeField_string_or_absent [OF this] obtain v' where v':
    "anonymizeField (field_name f) (row_get r (field_name f)) (field_type f) = Inr v'"
    by blast
  have IH: "\<exists>r'. processRow_loop fs r af acc' = Inr r'" for acc'
    using Cons by simp
  show ?case
    using v' IH by (simp add: Let_def)
qed

lemma processBatch_strings:
  assumes "\<forall>r \<in> set b. \<forall>f \<in> set fs.
      row_get r (field_name f) \<in> insert JNull (insert JUndefined (range JString))"
  shows "\<exists>pb. processBatch b fs af = Inr pb"
  using assms
proof (induction b)
  case Nil
  then show ?case by simp
next
  case (Cons r rs)
  have "\<forall>f \<in> set fs. row_get r (field_name f) \<in> insert JNull (insert JUndefined (range JString))"
    using Cons.prems by simp
  from processRow_loop_strings [OF this] obtain r' where "processRow r fs af = Inr r'"
    unfolding processRow_def by blast
  moreover from Cons obtain rs' where "processBatch rs fs af = Inr rs'"
    by auto
  ultimately show ?case by simp
qed

lemma streamLoop_succeeds:
  assumes "\<forall>n rows d. fst (dst_insertData C n rows d) = None"
    and "\<forall>b \<in> set batches. \<exists>pb. processBatch b ff af = Inr pb"
  shows "fst (streamLoop C t ff af tot (stream_of batches) p d) = None"
  using assms(2)
proof (induction batches arbitrary: p d)
  case Nil
  then show ?case by (simp add: stream_of_simps)
next
  case (Cons b bs)
  then obtain pb where pb: "processBatch b ff af = Inr pb" by auto
  obtain res d1 where ins: "dst_insertData C t pb d = (res, d1)"
    by (cases "dst_insertData C t pb d")
  with assms(1) have res: "res = None"
    by (metis fst_conv)
  have "fst (streamLoop C t ff af tot (stream_of bs) (p + length b) d1) = None"
    using Cons by simp
  then obtain d2 evs2 where
    "streamLoop C t ff af tot (stream_of bs) (p + length b) d1 = (None, d2, evs2)"
    by (metis prod.collapse)
  with pb ins res show ?case
    by (simp add: stream_of_simps Let_def)
qed

lemma processTable_succeeds:
  assumes "src_getTableInfo C tableName = Inr sourceTableInfo"
    and "src_streamTableData C tableName (or_default 1000 batchSize) = stream_of batches"
    and "\<forall>ti d. fst (dst_createTable C ti d) = None"
    and "\<forall>n rows d. fst (dst_insertData C n rows d) = None"
    and "\<forall>b \<in> set batches. \<exists>pb. processBatch b (table_fields sourceTableInfo) [] = Inr pb"
  shows "fst (processTable C tableName (Some []) (Some []) batchSize d) = None"
proof -
  let ?ti = "\<lparr>table_name = tableName, table_fields = table_fields sourceTableInfo, rowCount = None\<rparr>"
  obtain res d1 where cr: "dst_createTable C ?ti d = (res, d1)"
    by (cases "dst_createTable C ?ti d")
  with assms(3) have res: "res = None"
    by (metis fst_conv)
  from streamLoop_succeeds [OF assms(4,5)]
  have "fst (streamLoop C tableName (table_fields sourceTableInfo) [] 
          (or_default 0 (rowCount sourceTableInfo)) (stream_of batches) 0 d1) = None" .
  then obtain d2 evs2 where
    "streamLoop C tableName (table_fields sourceTableInfo) []
       (or_default 0 (rowCount sourceTableInfo)) (stream_of batches) 0 d1 = (None, d2, evs2)"
    by (metis prod.collapse)
  with assms(1,2) cr res show ?thesis
    by (simp add: processTable_def Let_def or_default_def [of "[]" "Some []"])
qed

section \<open>Several tables\<close>

text \<open>
  C5 as stated fails: the table \<open>orders\<close> cannot be described, and \<open>users\<close>, which migrates
  without an exception on its own, is never attempted after it.
\<close>

theorem processAllTables_failure_skips_later_tables:
  "processAllTables demo [orders_table, users_table] ()
     = (Some (Error ''no such table''), (), [GetTableInfo ''orders''])
   \<and> fst (processAllTables demo [users_table] ()) = None"
  by code_simp

lemma processAllTables_append:
  "processAllTables C before d = (None, d1, evs1) \<Longrightarrow>
     processAllTables C (before @ rest) d =
       (case processAllTables C rest d1 of (r, d2, evs2) \<Rightarrow> (r, d2, evs1 @ evs2))"
proof (induction before arbitrary: d evs1)
  case Nil
  then show ?case by (simp split: prod.splits)
next
  case (Cons t ts)
  obtain r0 d0 evs0 where first:
    "processTable C (tc_name t) (tc_anonymizeFields t) (tc_excludeFields t) (tc_batchSize t) d
       = (r0, d0, evs0)"
    by (cases "processTable C (tc_name t) (tc_anonymizeFields t) (tc_excludeFields t)
       (tc_batchSize t) d")
  with Cons.prems have r0: "r0 = None" by (cases r0) auto
  obtain r3 d3 evs3 where rest3: "processAllTables C ts d0 = (r3, d3, evs3)"
    by (cases "processAllTables C ts d0")
  with Cons.prems first r0 have "r3 = None" "d3 = d1" "evs1 = evs0 @ evs3"
    by simp_all
  with Cons.IH [of d0 evs3] rest3 first r0 show ?case
    by (simp split: prod.splits)
qed

lemma processTable_attempted:
  assumes "processTable C t af ex bs d = (r, d', evs)"
  shows "attempted_tables evs = [t]"
proof (cases "src_getTableInfo C t")
  case (Inl e)
  with assms show ?thesis by (auto simp: processTable_def projections_simps)
next
  case (Inr info)
  let ?ff = "filter (\<lambda>f. field_name f \<notin> set (or_default [] ex)) (table_fields info)"
  let ?ti = "\<lparr>table_name = t, table_fields = ?ff, rowCount = None\<rparr>"
  obtain res d1 where cr: "dst_createTable C ?ti d = (res, d1)"
    by (cases "dst_createTable C ?ti d")
  show ?thesis
  proof (cases res)
    case (Some e)
    with assms Inr cr show ?thesis by (auto simp: processTable_def Let_def projections_simps)
  next
    case None
    obtain r2 d2 evs2 where loop:
      "streamLoop C t ?ff (or_default [] af) (or_default 0 (rowCount info))
         (src_streamTableData C t (or_default 1000 bs)) 0 d1 = (r2, d2, evs2)"
      by (cases "streamLoop C t ?ff (or_default [] af) (or_default 0 (rowCount info))
         (src_streamTableData C t (or_default 1000 bs)) 0 d1")
    with assms(1) Inr cr None
    have "evs = [GetTableInfo t, CreateTable ?ti, StreamTableData t (or_default 1000 bs)] @ evs2"
      by (simp add: processTable_def Let_def)
    with streamLoop_no_schema_events [OF loop] show ?thesis
      by (simp add: projections_simps)
  qed
qed

lemma processAllTables_attempted_ok:
  "processAllTables C ts d = (None, d', evs) \<Longrightarrow> attempted_tables evs = map tc_name ts"
proof (induction ts arbitrary: d d' evs)
  case Nil
  then show ?case by (simp add: projections_simps)
next
  case (Cons t ts)
  obtain r0 d0 evs0 where first:
    "processTable C (tc_name t) (tc_anonymizeFields t) (tc_excludeFields t) (tc_batchSize t) d
       = (r0, d0, evs0)"
    by (cases "processTable C (tc_name t) (tc_anonymizeFields t) (tc_excludeFields t)
       (tc_batchSize t) d")
  with Cons.prems have r0: "r0 = None" by (cases r0) auto
  obtain r3 d3 evs3 where rest3: "processAllTables C ts d0 = (r3, d3, evs3)"
    by (cases "processAllTables C ts d0")
  with Cons.prems first r0 have "r3 = None" "evs = evs0 @ evs3"
    by simp_all
  with Cons.IH [of d0 d3 evs3] rest3 processTable_attempted [OF first] show ?case
    by (simp add: projections_simps)
qed

text \<open>
  C5, as amended. \<open>processAllTables\<close> stops at the first table whose \<open>processTable\<close> throws:
  when the tables before \<open>t\<close> complete and \<open>t\<close> fails, the exception of \<open>t\<close> is the outcome
  of the whole run, the calls made are those of the tables up to \<open>t\<close>, and no table after \<open>t\<close>
  is described, created or streamed.
\<close>

theorem processAllTables_stops_at_first_failure:
  assumes "processAllTables C before d = (None, d1, evs1)"
    and "processTable C (tc_name t) (tc_anonymizeFields t) (tc_excludeFields t) (tc_batchSize t) d1
           = (Some e, d2, evs2)"
  shows "processAllTables C (before @ t # after) d = (Some e, d2, evs1 @ evs2)
       \<and> attempted_tables (evs1 @ evs2) = map tc_name before @ [tc_name t]"
proof -
  have "processAllTables C (t # after) d1 = (Some e, d2, evs2)"
    using assms(2) by simp
  with processAllTables_append [OF assms(1), of "t # after"]
  have "processAllTables C (before @ t # after) d = (Some e, d2, evs1 @ evs2)"
    by simp
  moreover have "attempted_tables (evs1 @ evs2) = map tc_name before @ [tc_name t]"
    using processAllTables_attempted_ok [OF assms(1)] processTable_attempted [OF assms(2)]
    by (simp add: projections_simps)
  ultimately show ?thesis by blast
qed

theorem processAllTables_stops_at_first_failure_witness:
  "fst (processAllTables demo [users_table] ()) = None
   \<and> fst (processTable demo (tc_name orders_table) (tc_anonymizeFields orders_table)
            (tc_excludeFields orders_table) (tc_batchSize orders_table) ())
       = Some (Error ''no such table'')
   \<and> fst (processAllTables demo ([users_table] @ orders_table # [users_table, users_table]) ())
       = Some (Error ''no such table'')
   \<and> attempted_tables
        (snd (snd (processAllTables demo ([users_table] @ orders_table # [users_table, users_table]) ())))
       = [''users'', ''orders'']"
proof -
  have ok: "fst (processAllTables demo [users_table] ()) = None"
    by code_simp
  then have a: "processAllTables demo [users_table] ()
      = (None, (), snd (snd (processAllTables demo [users_table] ())))"
    by (simp add: prod_eq_iff)
  have bad: "fst (processTable demo (tc_name orders_table) (tc_anonymizeFields orders_table)
            (tc_excludeFields orders_table) (tc_batchSize orders_table) ())
       = Some (Error ''no such table'')"
    by code_simp
  then have b: "processTable demo (tc_name orders_table) (tc_anonymizeFields orders_table)
            (tc_excludeFields orders_table) (tc_batchSize orders_table) ()
       = (Some (Error ''no such table''), (),
          snd (snd (processTable demo (tc_name orders_table) (tc_anonymizeFields orders_table)
            (tc_excludeFields orders_table) (tc_batchSize orders_table) ())))"
    by (simp add: prod_eq_iff)
  from processAllTables_stops_at_first_failure [OF a b, of "[users_table, users_table]"] ok bad
  show ?thesis
    by (simp add: users_table_def orders_table_def)
qed

section \<open>AnalysisReporter\<close>

text \<open>
  C3 as stated fails both ways: \<open>analyze\<close> flags an \<open>email\<close> field of type \<open>integer\<close>, which
  \<open>shouldAnonymize\<close> rejects, and does not flag a \<open>city\<close> field of type \<open>string\<close>, which
  \<open>shouldAnonymize\<close> accepts.
\<close>

theorem analyze_differs_from_shouldAnonymize:
  "sensitiveFields (analyzeTable ''users''
      \<lparr>table_name = ''users'',
       table_fields = [\<lparr>field_name = ''email'', field_type = ''integer'', nullable = False,
                        defaultValue = JUndefined\<rparr>],
       rowCount = None\<rparr>) = [''email'']
   \<and> \<not> shouldAnonymize ''email'' ''integer''
   \<and> sensitiveFields (analyzeTable ''users''
      \<lparr>table_name = ''users'',
       table_fields = [\<lparr>field_name = ''city'', field_type = ''string'', nullable = False,
                        defaultValue = JUndefined\<rparr>],
       rowCount = None\<rparr>) = []
   \<and> shouldAnonymize ''city'' ''string''"
  by code_simp

lemma analyzePatterns_subset: "set analyzePatterns \<subseteq> set sensitivePatterns"
  by (simp add: analyzePatterns_def sensitivePatterns_def)

text \<open>
  C3, as amended. \<open>analyze\<close> flags a field of a table exactly when its name contains, letter
  case ignored, one of the nine fragments of the list written in \<open>analyze\<close>; the type of the
  field plays no part. A field of type \<open>string\<close> that \<open>analyze\<close> flags is also flagged by
  \<open>shouldAnonymize\<close>.
\<close>

theorem analyze_flags_by_name_only:
  assumes "f \<in> set (table_fields tableInfo)"
  shows "(field_name f \<in> set (sensitiveFields (analyzeTable tableName tableInfo)))
           = (\<exists>p \<in> set analyzePatterns. contains_ci (field_name f) p)
       \<and> (field_name f \<in> set (sensitiveFields (analyzeTable tableName tableInfo))
            \<and> field_type f = ''string''
          \<longrightarrow> shouldAnonymize (field_name f) (field_type f))"
proof -
  have flag: "analyze_isSensitive g = (\<exists>p \<in> set analyzePatterns. contains_ci (field_name g) p)"
    for g
    by (simp add: analyze_isSensitive_def list_ex_iff regex_test_i_contains_ci)
  have a: "(field_name f \<in> set (sensitiveFields (analyzeTable tableName tableInfo)))
      = (\<exists>p \<in> set analyzePatterns. contains_ci (field_name f) p)"
  proof
    assume "field_name f \<in> set (sensitiveFields (analyzeTable tableName tableInfo))"
    then obtain g where "analyze_isSensitive g" "field_name g = field_name f"
      by (auto simp: analyzeTable_def)
    then show "\<exists>p \<in> set analyzePatterns. contains_ci (field_name f) p"
      by (simp add: flag)
  next
    assume "\<exists>p \<in> set analyzePatterns. contains_ci (field_name f) p"
    then have "analyze_isSensitive f" by (simp add: flag)
    with assms show "field_name f \<in> set (sensitiveFields (analyzeTable tableName tableInfo))"
      by (auto simp: analyzeTable_def)
  qed
  have b: "shouldAnonymize (field_name f) (field_type f)"
    if "field_name f \<in> set (sensitiveFields (analyzeTable tableName tableInfo))"
      and "field_type f = ''string''"
  proof -
    from that(1) a obtain p where "p \<in> set analyzePatterns" "contains_ci (field_name f) p"
      by blast
    with analyzePatterns_subset have "\<exists>p \<in> set sensitivePatterns. regex_test_i p (field_name f)"
      by (auto simp: regex_test_i_contains_ci)
    with that(2) show ?thesis
      by (simp add: shouldAnonymize_def list_ex_iff)
  qed
  from a b show ?thesis by blast
qed

theorem analyze_flags_by_name_only_witness:
  "email_field \<in> set (table_fields demo_info)
   \<and> field_name email_field \<in> set (sensitiveFields (analyzeTable ''users'' demo_info))
   \<and> field_type email_field = ''string''
   \<and> shouldAnonymize (field_name email_field) (field_type email_field)"
proof -
  have a: "email_field \<in> set (table_fields demo_info)"
    by (simp add: email_field_def demo_info_def demo_fields_def)
  have b: "field_name email_field \<in> set (sensitiveFields (analyzeTable ''users'' demo_info))"
    by code_simp
  have c: "field_type email_field = ''string''"
    by (simp add: email_field_def)
  from analyze_flags_by_name_only [OF a, of "''users''"] a b c show ?thesis
    by simp
qed

section \<open>Connectors: batches of rows\<close>

text \<open>
  C4. For a batch of two rows the MySQL connector sends one statement with a single group of
  placeholders, one per column, and the values of both rows as parameters; the PostgreSQL
  connector sends one statement per row.
\<close>

theorem mysql_insertData_two_rows_one_placeholder_group:
  "mysql_insertData True ''users'' [[(''id'', JNumber 1)], [(''id'', JNumber 2)]]
     = [Statement ''INSERT INTO `users` (`id`) VALUES (?)'' [JNumber 1, JNumber 2]]
   \<and> postgresql_insertData True ''users'' [[(''id'', JNumber 1)], [(''id'', JNumber 2)]]
     = [Statement ''INSERT INTO \"users\" (\"id\") VALUES ($1)'' [JNumber 1],
        Statement ''INSERT INTO \"users\" (\"id\") VALUES ($1)'' [JNumber 2]]"
  by code_simp

theorem mysql_insertData_two_rows_one_placeholder_group_witness:
  "map (\<lambda>st. case st of Statement query params \<Rightarrow> (count_list query CHR ''?'', length params))
     (mysql_insertData True ''users'' [[(''id'', JNumber 1)], [(''id'', JNumber 2)]])
   = [(1, 2)]"
proof -
  from mysql_insertData_two_rows_one_placeholder_group
  have "mysql_insertData True ''users'' [[(''id'', JNumber 1)], [(''id'', JNumber 2)]]
     = [Statement ''INSERT INTO `users` (`id`) VALUES (?)'' [JNumber 1, JNumber 2]]"
    by (rule conjunct1)
  then show ?thesis by simp
qed

lemma mysql_insertData_shape:
  assumes "data \<noteq> []"
  shows "\<exists>query params. mysql_insertData True tableName data = [Statement query params]
           \<and> length params = length data * length (object_keys (hd data))"
  using assms
  by (simp add: mysql_insertData_def Let_def length_concat comp_def sum_list_triv)

lemma postgresql_insertData_shape:
  "length (postgresql_insertData True tableName data) = length data
   \<and> (\<forall>query params. Statement query params \<in> set (postgresql_insertData True tableName data)
        \<longrightarrow> length params = length (object_keys (hd data)))"
  by (auto simp: postgresql_insertData_def Let_def)

lemma insertData_empty_batch_noop:
  "mysql_insertData pool tableName [] = [] \<and> postgresql_insertData pool tableName [] = []"
  by (simp add: mysql_insertData_def postgresql_insertData_def)

section \<open>Configuration: the batch size of a table\<close>

text \<open>
  C9. A configuration whose table \<open>users\<close> gives no \<open>batchSize\<close> and whose top-level
  \<open>batchSize\<close> is 500: \<open>validateConfig\<close> sets the batch size of the table to 1000, and both the
  \<open>migrate\<close> command and \<open>Debaser.migrate\<close> stream the table in batches of 1000.
\<close>

theorem validateConfig_table_batchSize_hides_top_level:
  "map_sum id cfg_tables (validateConfig Inr demo_config)
     = Inr [\<lparr>tc_name = ''users'', tc_anonymizeFields = Some [], tc_excludeFields = Some [],
              tc_batchSize = Some 1000\<rparr>]
   \<and> map_sum id cfg_batchSize (validateConfig Inr demo_config) = Inr (Some 500)
   \<and> (case validateConfig Inr demo_config of
         Inl e \<Rightarrow> []
       | Inr config \<Rightarrow> stream_requests (snd (snd (migrateData_tables demo config ()))))
       = [(''users'', 1000)]
   \<and> (case validateConfig Inr demo_config of
         Inl e \<Rightarrow> []
       | Inr config \<Rightarrow> stream_requests (snd (snd (migrate demo config ()))))
       = [(''users'', 1000)]"
  by code_simp

lemma validateConfig_cli_fallback_unreachable:
  assumes "validateConfig validateDatabaseConfig raw = Inr config"
    and "t \<in> set (cfg_tables config)"
  shows "js_or (tc_batchSize t) (cfg_batchSize config) = tc_batchSize t
       \<and> tc_batchSize t \<noteq> None"
proof -
  from assms(1) have
    "cfg_tables config =
       map (\<lambda>t. \<lparr>tc_name = tc_name t,
                  tc_anonymizeFields = Some (or_default [] (tc_anonymizeFields t)),
                  tc_excludeFields = Some (or_default [] (tc_excludeFields t)),
                  tc_batchSize = js_or (tc_batchSize t) (Some 1000)\<rparr>) (the (raw_tables raw))"
    by (auto simp: validateConfig_def split: option.splits sum.splits)
  then have "tc_batchSize ` set (cfg_tables config)
      = (\<lambda>t0. js_or (tc_batchSize t0) (Some 1000)) ` set (the (raw_tables raw))"
    by (simp add: image_image)
  moreover from assms(2) have "tc_batchSize t \<in> tc_batchSize ` set (cfg_tables config)"
    by (rule imageI)
  ultimately obtain t0 :: TableConfig where
    "tc_batchSize t = js_or (tc_batchSize t0) (Some 1000)"
    by auto
  then show ?thesis
    by (auto simp: js_or_def split: if_splits)
qed

end
